theory Spec2Isabelle
  imports Main
begin

section \<open>Data model\<close>

text \<open>
  The program (telethreaty.py) handles the JSON objects of the Telegram Bot API as Python
  dicts. The model types them as the API documents them: the keys the code reads with
  \<^verbatim>\<open>d[k]\<close> are required, the keys it reads with \<^verbatim>\<open>d.get(k, default)\<close> or tests
  with \<^verbatim>\<open>k in d\<close> are optional. A message keeps the keys the projection reads;
  attachments are carried along unread and are left out. The key \<^verbatim>\<open>from\<close> is
  \<open>msg_from\<close> and the key \<^verbatim>\<open>text\<close> is \<open>msg_text\<close>, the keys \<^verbatim>\<open>id\<close> and
  \<^verbatim>\<open>type\<close> of a chat are \<open>c_id\<close> and \<open>c_type\<close>.
\<close>

record sender =
  user_id :: int
  is_bot :: "bool option"

record chat =
  c_id :: int
  c_type :: string

datatype message =
  Message (message_id: int) (chat: chat) (msg_from: "sender option") (date: int)
    (msg_text: "string option") (reply_to_message: "message option")

record update =
  update_id :: int
  message :: "message option"
  channel_post :: "message option"

text \<open>
  The dict appended by \<^verbatim>\<open>get_complete_message_history\<close> (lines 231-237), its keys
  prefixed with \<open>rec_\<close>; the two direction strings are an enumeration.
\<close>

datatype direction = SENT | RECEIVED

record projected =
  rec_update_id :: int
  rec_message :: message
  rec_timestamp :: int
  rec_is_bot :: bool
  rec_direction :: direction

section \<open>The remote API as an environment\<close>

text \<open>
  What a request can raise. \<open>Exception msg\<close> is an instance of any subclass of
  Python's \<^verbatim>\<open>Exception\<close> (a connection error, a timeout, a JSON decoding error, a
  \<^verbatim>\<open>KeyError\<close>) with \<^verbatim>\<open>str(e) = msg\<close>. \<open>KeyboardInterrupt\<close> derives from
  \<^verbatim>\<open>BaseException\<close> only: \<^verbatim>\<open>except Exception\<close> does not catch it.
\<close>

datatype py_exception = Exception string | KeyboardInterrupt

text \<open>
  The envelope of every answer of the API, and of the dict the wrappers build on a
  failure, \<^verbatim>\<open>{'ok': False, 'error': str(e)}\<close>.
\<close>

record 'r envelope =
  ok :: bool
  result :: "'r option"
  description :: "string option"
  error :: "string option"

definition failure :: "string \<Rightarrow> 'r envelope" where
  "failure msg = \<lparr>ok = False, result = None, description = None, error = Some msg\<rparr>"

datatype verb = GET | POST

datatype form_value = StrV string | IntV int

record request =
  verb :: verb
  url :: string
  form :: "(string \<times> form_value) list"
  req_timeout :: int

text \<open>
  \<^verbatim>\<open>requests.get\<close>/\<^verbatim>\<open>requests.post\<close> followed by \<^verbatim>\<open>response.json()\<close> is
  one exchange with the environment: it raises, or it yields the decoded envelope.
  A single call takes the environment as a function of the request; a loop of calls
  threads a state of the environment through them. \<open>form\<close> holds the pairs passed
  as \<^verbatim>\<open>params\<close> or as \<^verbatim>\<open>data\<close>. An interrupt from the keyboard is an outcome of
  the exchange too: the program spends its waiting time there.
\<close>

type_synonym 'r outcome = "py_exception + 'r envelope"

type_synonym ('s, 'r) remote = "'s \<Rightarrow> request \<Rightarrow> 'r outcome \<times> 's"

record threaty_bot =
  token :: string
  timeout :: int
  download_dir :: string

definition base_url :: "threaty_bot \<Rightarrow> string" where
  "base_url self = ''https://api.telegram.org/bot'' @ token self"

section \<open>Single-request wrappers\<close>

text \<open>
  Every wrapper has the body
  \<^verbatim>\<open>
    try:
        response = requests.post(url, data=data, timeout=self.timeout)
        return response.json()
    except Exception as e:
        return {'ok': False, 'error': str(e)}
  \<close>
  \<open>try_json\<close> is that try statement applied to the outcome of the exchange.
\<close>

definition try_json :: "'r outcome \<Rightarrow> 'r outcome" where
  "try_json out =
     (case out of
        Inr data \<Rightarrow> Inr data
      | Inl (Exception msg) \<Rightarrow> Inr (failure msg)
      | Inl KeyboardInterrupt \<Rightarrow> Inl KeyboardInterrupt)"

definition get_bot_info :: "threaty_bot \<Rightarrow> (request \<Rightarrow> 'r outcome) \<Rightarrow> 'r outcome" where
  "get_bot_info self http =
     try_json (http \<lparr>verb = GET, url = base_url self @ ''/getMe'', form = [],
                     req_timeout = timeout self\<rparr>)"

definition get_chat_info :: "threaty_bot \<Rightarrow> (request \<Rightarrow> 'r outcome) \<Rightarrow> string \<Rightarrow> 'r outcome" where
  "get_chat_info self http chat_id =
     try_json (http \<lparr>verb = POST, url = base_url self @ ''/getChat'',
                     form = [(''chat_id'', StrV chat_id)], req_timeout = timeout self\<rparr>)"

definition get_chat_member ::
  "threaty_bot \<Rightarrow> (request \<Rightarrow> 'r outcome) \<Rightarrow> string \<Rightarrow> int \<Rightarrow> 'r outcome" where
  "get_chat_member self http chat_id user =
     try_json (http \<lparr>verb = POST, url = base_url self @ ''/getChatMember'',
                     form = [(''chat_id'', StrV chat_id), (''user_id'', IntV user)],
                     req_timeout = timeout self\<rparr>)"

definition get_chat_administrators ::
  "threaty_bot \<Rightarrow> (request \<Rightarrow> 'r outcome) \<Rightarrow> string \<Rightarrow> 'r outcome" where
  "get_chat_administrators self http chat_id =
     try_json (http \<lparr>verb = POST, url = base_url self @ ''/getChatAdministrators'',
                     form = [(''chat_id'', StrV chat_id)], req_timeout = timeout self\<rparr>)"

definition get_chat_member_count ::
  "threaty_bot \<Rightarrow> (request \<Rightarrow> 'r outcome) \<Rightarrow> string \<Rightarrow> 'r outcome" where
  "get_chat_member_count self http chat_id =
     try_json (http \<lparr>verb = POST, url = base_url self @ ''/getChatMemberCount'',
                     form = [(''chat_id'', StrV chat_id)], req_timeout = timeout self\<rparr>)"

definition get_my_commands ::
  "threaty_bot \<Rightarrow> (request \<Rightarrow> 'r outcome) \<Rightarrow> string \<Rightarrow> 'r outcome" where
  "get_my_commands self http chat_id =
     try_json (http \<lparr>verb = GET, url = base_url self @ ''/getMyCommands'',
                     form = [(''chat_id'', StrV chat_id)], req_timeout = timeout self\<rparr>)"

definition get_my_default_admin_rights ::
  "threaty_bot \<Rightarrow> (request \<Rightarrow> 'r outcome) \<Rightarrow> string \<Rightarrow> 'r outcome" where
  "get_my_default_admin_rights self http chat_id =
     try_json (http \<lparr>verb = GET, url = base_url self @ ''/getMyDefaultAdministratorRights'',
                     form = [(''chat_id'', StrV chat_id)], req_timeout = timeout self\<rparr>)"

definition send_message ::
  "threaty_bot \<Rightarrow> (request \<Rightarrow> 'r outcome) \<Rightarrow> string \<Rightarrow> string \<Rightarrow> 'r outcome" where
  "send_message self http chat_id txt =
     try_json (http \<lparr>verb = POST, url = base_url self @ ''/sendMessage'',
                     form = [(''chat_id'', StrV chat_id), (''text'', StrV txt)],
                     req_timeout = timeout self\<rparr>)"

text \<open>\<^verbatim>\<open>delete_message\<close> (lines 260-268); \<open>delete_request\<close> is the request it posts.\<close>

definition delete_request :: "threaty_bot \<Rightarrow> string \<Rightarrow> int \<Rightarrow> request" where
  "delete_request self chat_id msg_id =
     \<lparr>verb = POST, url = base_url self @ ''/deleteMessage'',
      form = [(''chat_id'', StrV chat_id), (''message_id'', IntV msg_id)],
      req_timeout = timeout self\<rparr>"

definition delete_message ::
  "threaty_bot \<Rightarrow> (request \<Rightarrow> 'r outcome) \<Rightarrow> string \<Rightarrow> int \<Rightarrow> 'r outcome" where
  "delete_message self http chat_id msg_id = try_json (http (delete_request self chat_id msg_id))"

text \<open>
  \<^verbatim>\<open>get_file_download_url\<close> (lines 305-320) reads \<^verbatim>\<open>data['ok']\<close> and
  \<^verbatim>\<open>data['result']['file_path']\<close> inside its try statement; every
  \<^verbatim>\<open>Exception\<close>, a missing key included, is printed and answered with
  \<^verbatim>\<open>None\<close>.
\<close>

record tg_file =
  file_path :: "string option"

definition get_file_download_url ::
  "threaty_bot \<Rightarrow> (request \<Rightarrow> tg_file outcome) \<Rightarrow> string \<Rightarrow> py_exception + string option" where
  "get_file_download_url self http file_id =
     (case http \<lparr>verb = GET, url = base_url self @ ''/getFile'',
                  form = [(''file_id'', StrV file_id)], req_timeout = timeout self\<rparr> of
        Inl (Exception msg) \<Rightarrow> Inr None
      | Inl KeyboardInterrupt \<Rightarrow> Inl KeyboardInterrupt
      | Inr data \<Rightarrow>
          if ok data then
            (case result data of
               None \<Rightarrow> Inr None
             | Some f \<Rightarrow>
                 (case file_path f of
                    None \<Rightarrow> Inr None
                  | Some fp \<Rightarrow>
                      Inr (Some (''https://api.telegram.org/file/bot'' @ token self @ ''/'' @ fp))))
          else Inr None)"

section \<open>Update poller\<close>

text \<open>
  \<^verbatim>\<open>get_all_updates\<close> (lines 161-202). The call of \<^verbatim>\<open>get_bot_info\<close> before the
  loop only decides whether a warning is printed and is left out. The while loop is
  \<open>get_updates_loop\<close>: \<open>offset\<close> and \<open>all_updates\<close> are the loop's variables,
  \<open>s\<close> is the state of the environment. The loop is left by \<^verbatim>\<open>break\<close> or by an
  exception of the request, of \<^verbatim>\<open>response.json()\<close> or of a missing key
  (\<^verbatim>\<open>data['result']\<close> on an envelope without a result); \<open>all_updates\<close> is a
  variable of the enclosing function, so the handler still sees what was accumulated.
  \<open>exchanges\<close> is a ghost variable: the requests sent so far, each with its outcome.
\<close>

datatype loop_exit = Break | Raised py_exception

type_synonym exchange = "request \<times> update list outcome"

definition get_updates_request :: "threaty_bot \<Rightarrow> int \<Rightarrow> int \<Rightarrow> request" where
  "get_updates_request self offset page_limit =
     \<lparr>verb = GET, url = base_url self @ ''/getUpdates'',
      form = [(''offset'', IntV offset), (''limit'', IntV page_limit), (''timeout'', IntV 5)],
      req_timeout = timeout self\<rparr>"

text \<open>The \<^verbatim>\<open>KeyError\<close> of \<^verbatim>\<open>data['result']\<close>; its \<^verbatim>\<open>str\<close> is the quoted key.\<close>

definition key_error_result :: py_exception where
  "key_error_result = Exception (CHR 0x27 # ''result'' @ [CHR 0x27])"

function get_updates_loop ::
  "threaty_bot \<Rightarrow> ('s, update list) remote \<Rightarrow> int \<Rightarrow> 's \<Rightarrow> int \<Rightarrow> update list \<Rightarrow> exchange list
     \<Rightarrow> loop_exit \<times> update list \<times> exchange list \<times> 's" where
  "get_updates_loop self http lim s offset all_updates exchanges =
     (let rq = get_updates_request self offset (min 100 (lim - int (length all_updates)));
          reply = fst (http s rq);
          s' = snd (http s rq);
          exchanges' = exchanges @ [(rq, reply)]
      in case reply of
           Inl e \<Rightarrow> (Raised e, all_updates, exchanges', s')
         | Inr data \<Rightarrow>
             if \<not> ok data then (Break, all_updates, exchanges', s')
             else
               (case result data of
                  None \<Rightarrow> (Raised key_error_result, all_updates, exchanges', s')
                | Some batch_updates \<Rightarrow>
                    if batch_updates = [] then (Break, all_updates, exchanges', s')
                    else if lim \<le> int (length (all_updates @ batch_updates))
                            \<or> length batch_updates < 100
                    then (Break, all_updates @ batch_updates, exchanges', s')
                    else get_updates_loop self http lim s'
                           (update_id (last batch_updates) + 1)
                           (all_updates @ batch_updates) exchanges'))"
  by pat_completeness auto
termination
  by (relation "measure (\<lambda>(self, http, lim, s, offset, all_updates, exchanges).
                   nat (lim - int (length all_updates)))") auto

declare get_updates_loop.simps [simp del]

text \<open>
  The try statement around the loop: \<^verbatim>\<open>except Exception\<close> prints the error and
  falls through to \<^verbatim>\<open>return all_updates\<close>; a \<^verbatim>\<open>KeyboardInterrupt\<close> is not
  caught and leaves the function.
\<close>

definition get_all_updates ::
  "threaty_bot \<Rightarrow> ('s, update list) remote \<Rightarrow> 's \<Rightarrow> int \<Rightarrow> int
     \<Rightarrow> (py_exception + update list) \<times> exchange list \<times> 's" where
  "get_all_updates self http s lim offset =
     (case get_updates_loop self http lim s offset [] [] of
        (Break, all_updates, exchanges, s') \<Rightarrow> (Inr all_updates, exchanges, s')
      | (Raised (Exception msg), all_updates, exchanges, s') \<Rightarrow> (Inr all_updates, exchanges, s')
      | (Raised KeyboardInterrupt, all_updates, exchanges, s') \<Rightarrow>
          (Inl KeyboardInterrupt, exchanges, s'))"

text \<open>Reading an exchange: the offset and limit that were sent, the page that came back.\<close>

definition sent_offset :: "exchange \<Rightarrow> form_value option" where
  "sent_offset x = map_of (form (fst x)) ''offset''"

definition sent_limit :: "exchange \<Rightarrow> form_value option" where
  "sent_limit x = map_of (form (fst x)) ''limit''"

definition page :: "exchange \<Rightarrow> update list" where
  "page x =
     (case snd x of
        Inl e \<Rightarrow> []
      | Inr data \<Rightarrow> if ok data then (case result data of None \<Rightarrow> [] | Some us \<Rightarrow> us) else [])"

text \<open>
  What the API promises of a page: its updates come in ascending order of
  \<open>update_id\<close>, and none of them lies below the offset that was sent.
\<close>

definition ascending :: "exchange \<Rightarrow> bool" where
  "ascending x = sorted_wrt (<) (map update_id (page x))"

definition honours_offset :: "exchange \<Rightarrow> bool" where
  "honours_offset x =
     (case sent_offset x of
        Some (IntV k) \<Rightarrow> list_all (\<lambda>u. k \<le> update_id u) (page x)
      | _ \<Rightarrow> False)"

text \<open>
  The conditions under which the loop body does not start another iteration, for the
  outcome of a request made with \<open>n\<close> updates accumulated: the request raised, the
  envelope is not ok or has no or an empty result, the count reaches the limit, or the
  page is shorter than 100.
\<close>

definition stops :: "int \<Rightarrow> nat \<Rightarrow> update list outcome \<Rightarrow> bool" where
  "stops lim n reply =
     (case reply of
        Inl e \<Rightarrow> True
      | Inr data \<Rightarrow>
          (if ok data then
             (case result data of
                None \<Rightarrow> True
              | Some us \<Rightarrow> us = [] \<or> lim \<le> int (n + length us) \<or> length us < 100)
           else True))"

definition exit_of :: "exchange \<Rightarrow> loop_exit" where
  "exit_of x =
     (case snd x of
        Inl e \<Rightarrow> Raised e
      | Inr data \<Rightarrow> if ok data \<and> result data = None then Raised key_error_result else Break)"

text \<open>
  The runs of the loop as a step relation: \<open>poll_run self http lim s offset n xs\<close> says
  that the loop, entered with the environment in state \<open>s\<close>, the offset \<open>offset\<close>
  and \<open>n\<close> updates accumulated, makes exactly the exchanges \<open>xs\<close>.
\<close>

inductive poll_run ::
  "threaty_bot \<Rightarrow> ('s, update list) remote \<Rightarrow> int \<Rightarrow> 's \<Rightarrow> int \<Rightarrow> nat \<Rightarrow> exchange list \<Rightarrow> bool"
  for self :: threaty_bot and http :: "('s, update list) remote" and lim :: int where
  last_request:
    "rq = get_updates_request self offset (min 100 (lim - int n)) \<Longrightarrow>
     stops lim n (fst (http s rq)) \<Longrightarrow>
     poll_run self http lim s offset n [(rq, fst (http s rq))]"
| next_request:
    "rq = get_updates_request self offset (min 100 (lim - int n)) \<Longrightarrow>
     \<not> stops lim n (fst (http s rq)) \<Longrightarrow>
     x = (rq, fst (http s rq)) \<Longrightarrow>
     poll_run self http lim (snd (http s rq)) (update_id (last (page x)) + 1)
       (n + length (page x)) xs \<Longrightarrow>
     poll_run self http lim s offset n (x # xs)"

text \<open>
  A scripted environment for tests: its state is the list of outcomes still to be
  served; when the script is used up it answers with an empty page.
\<close>

definition scripted :: "(update list outcome list, update list) remote" where
  "scripted script rq =
     (case script of
        [] \<Rightarrow> (Inr \<lparr>ok = True, result = Some [], description = None, error = None\<rparr>, [])
      | out # script' \<Rightarrow> (out, script'))"

definition ok_page :: "update list \<Rightarrow> update list outcome" where
  "ok_page us = Inr \<lparr>ok = True, result = Some us, description = None, error = None\<rparr>"

definition plain_update :: "int \<Rightarrow> update" where
  "plain_update i = \<lparr>update_id = i, message = None, channel_post = None\<rparr>"

definition updates_from :: "int \<Rightarrow> nat \<Rightarrow> update list" where
  "updates_from a n = map (\<lambda>i. plain_update (a + int i)) [0..<n]"

text \<open>An exchange whose page is no longer than the limit its request asked for.\<close>

definition respects_limit :: "exchange \<Rightarrow> bool" where
  "respects_limit x =
     (case sent_limit x of
        Some (IntV k) \<Rightarrow> int (length (page x)) \<le> k
      | _ \<Rightarrow> False)"

section \<open>Message projector\<close>

text \<open>\<^verbatim>\<open>str(n)\<close> for an integer: the decimal digits, with a minus sign when negative.\<close>

fun str_nat :: "nat \<Rightarrow> string" where
  "str_nat n =
     (if n < 10 then [''0123456789'' ! n]
      else str_nat (n div 10) @ [''0123456789'' ! (n mod 10)])"

definition str_int :: "int \<Rightarrow> string" where
  "str_int i = (if i < 0 then CHR ''-'' # str_nat (nat (- i)) else str_nat (nat i))"

definition startswith :: "string \<Rightarrow> string \<Rightarrow> bool" where
  "startswith s pre = (take (length pre) s = pre)"

text \<open>
  \<^verbatim>\<open>update.get('message', {}) or update.get('channel_post', {})\<close>: the message when
  there is one, else the channel post; \<open>None\<close> stands for the falsy value the for loop
  skips.
\<close>

definition embedded_message :: "update \<Rightarrow> message option" where
  "embedded_message u = (case message u of Some m \<Rightarrow> Some m | None \<Rightarrow> channel_post u)"

text \<open>The local \<^verbatim>\<open>is_visible\<close> (lines 223-227).\<close>

definition is_visible :: "message \<Rightarrow> bool" where
  "is_visible m =
     (startswith (case msg_text m of None \<Rightarrow> [] | Some t \<Rightarrow> t) ''/''
      \<or> reply_to_message m \<noteq> None
      \<or> c_type (chat m) = ''private'')"

text \<open>\<^verbatim>\<open>message.get('from', {}).get('is_bot', False)\<close>.\<close>

definition from_is_bot :: "message \<Rightarrow> bool" where
  "from_is_bot m =
     (case msg_from m of
        None \<Rightarrow> False
      | Some f \<Rightarrow> (case is_bot f of None \<Rightarrow> False | Some b \<Rightarrow> b))"

definition projected_record :: "update \<Rightarrow> message \<Rightarrow> projected" where
  "projected_record u m =
     \<lparr>rec_update_id = update_id u, rec_message = m, rec_timestamp = date m,
      rec_is_bot = from_is_bot m,
      rec_direction = (if from_is_bot m then SENT else RECEIVED)\<rparr>"

text \<open>
  \<^verbatim>\<open>if chat_id and str(message['chat']['id']) != str(chat_id)\<close>: the filter is a
  string (the program reads it from its configuration) or \<^verbatim>\<open>None\<close>; \<^verbatim>\<open>None\<close>
  and the empty string are falsy.
\<close>

definition chat_mismatch :: "string option \<Rightarrow> message \<Rightarrow> bool" where
  "chat_mismatch chat_id m =
     (case chat_id of
        None \<Rightarrow> False
      | Some c \<Rightarrow> c \<noteq> [] \<and> str_int (c_id (chat m)) \<noteq> c)"

text \<open>
  The for loop of \<^verbatim>\<open>get_complete_message_history\<close> (lines 212-237), the spec's
  \<^verbatim>\<open>project(updates, chat_id_filter, can_read_all)\<close>; \<open>messages\<close> is the list the
  loop appends to.
\<close>

fun project_loop :: "string option \<Rightarrow> bool \<Rightarrow> update list \<Rightarrow> projected list \<Rightarrow> projected list" where
  "project_loop chat_id can_read_all [] messages = messages"
| "project_loop chat_id can_read_all (u # all_updates) messages =
     (case embedded_message u of
        None \<Rightarrow> project_loop chat_id can_read_all all_updates messages
      | Some m \<Rightarrow>
          if chat_mismatch chat_id m then project_loop chat_id can_read_all all_updates messages
          else if \<not> can_read_all \<and> \<not> is_visible m
          then project_loop chat_id can_read_all all_updates messages
          else project_loop chat_id can_read_all all_updates (messages @ [projected_record u m]))"

definition project :: "string option \<Rightarrow> bool \<Rightarrow> update list \<Rightarrow> projected list" where
  "project chat_id can_read_all all_updates = project_loop chat_id can_read_all all_updates []"

text \<open>
  \<^verbatim>\<open>bot_info.get('result', {}).get('can_read_all_group_messages', False)\<close>, on the
  envelope \<^verbatim>\<open>get_bot_info\<close> returned.
\<close>

record bot_data =
  can_read_all_group_messages :: "bool option"

definition can_read_all_of :: "bot_data envelope \<Rightarrow> bool" where
  "can_read_all_of bot_info =
     (case result bot_info of
        None \<Rightarrow> False
      | Some d \<Rightarrow> (case can_read_all_group_messages d of None \<Rightarrow> False | Some b \<Rightarrow> b))"

text \<open>
  \<^verbatim>\<open>get_complete_message_history\<close> (lines 204-239): the updates of
  \<^verbatim>\<open>get_all_updates(limit=limit)\<close> from offset 0, the flag of \<^verbatim>\<open>get_bot_info()\<close>,
  then the for loop.
\<close>

definition get_complete_message_history ::
  "threaty_bot \<Rightarrow> ('s, update list) remote \<Rightarrow> (request \<Rightarrow> bot_data outcome) \<Rightarrow> 's
     \<Rightarrow> string option \<Rightarrow> int \<Rightarrow> py_exception + projected list" where
  "get_complete_message_history self http http_me s chat_id lim =
     (case fst (get_all_updates self http s lim 0) of
        Inl e \<Rightarrow> Inl e
      | Inr all_updates \<Rightarrow>
          (case get_bot_info self http_me of
             Inl e \<Rightarrow> Inl e
           | Inr bot_info \<Rightarrow> Inr (project chat_id (can_read_all_of bot_info) all_updates)))"

text \<open>A projected record read back as an update, to run the projection on its own output.\<close>

definition as_update :: "projected \<Rightarrow> update" where
  "as_update r = \<lparr>update_id = rec_update_id r, message = Some (rec_message r), channel_post = None\<rparr>"

text \<open>Messages and updates for tests.\<close>

definition text_message :: "int \<Rightarrow> string \<Rightarrow> string \<Rightarrow> message" where
  "text_message chat_ident kind txt =
     Message 10 \<lparr>c_id = chat_ident, c_type = kind\<rparr> None 1700000000 (Some txt) None"

definition message_update :: "int \<Rightarrow> message \<Rightarrow> update" where
  "message_update i m = \<lparr>update_id = i, message = Some m, channel_post = None\<rparr>"

definition channel_post_update :: "int \<Rightarrow> message \<Rightarrow> update" where
  "channel_post_update i m = \<lparr>update_id = i, message = None, channel_post = Some m\<rparr>"

section \<open>Live monitor\<close>

text \<open>
  \<^verbatim>\<open>monitor_messages\<close> (lines 604-633). The loop has no exit of its own
  (\<^verbatim>\<open>while True\<close> without \<^verbatim>\<open>break\<close>): it ends only when something raises, so it is
  a partial function and \<open>None\<close> is the run that never ends. \<^verbatim>\<open>if offset\<close> is false
  for \<^verbatim>\<open>None\<close> and for 0; \<^verbatim>\<open>data.get('ok') and data.get('result')\<close> is false for
  an absent or empty result; the for loop leaves \<open>offset\<close> at the last update's id
  plus one. The handler of the try statement is \<^verbatim>\<open>except KeyboardInterrupt\<close>, and
  nothing else. The call of \<^verbatim>\<open>get_bot_info\<close> before the loop only decides what is
  printed, and the pause of one second between two requests has no effect on the
  values; both are left out.
\<close>

definition monitor_request :: "threaty_bot \<Rightarrow> int option \<Rightarrow> request" where
  "monitor_request self offset =
     \<lparr>verb = GET,
      url = base_url self @ ''/getUpdates?timeout=30''
            @ (case offset of
                 None \<Rightarrow> []
               | Some n \<Rightarrow> if n = 0 then [] else ''&offset='' @ str_int n),
      form = [], req_timeout = 35\<rparr>"

partial_function (option) monitor_loop ::
  "threaty_bot \<Rightarrow> ('s, update list) remote \<Rightarrow> 's \<Rightarrow> int option \<Rightarrow> py_exception option" where
  "monitor_loop self http s offset =
     (case fst (http s (monitor_request self offset)) of
        Inl e \<Rightarrow> Some e
      | Inr data \<Rightarrow>
          monitor_loop self http (snd (http s (monitor_request self offset)))
            (if ok data then
               (case result data of
                  None \<Rightarrow> offset
                | Some us \<Rightarrow> if us = [] then offset else Some (update_id (last us) + 1))
             else offset))"

definition monitor_messages ::
  "threaty_bot \<Rightarrow> ('s, update list) remote \<Rightarrow> 's \<Rightarrow> (py_exception + unit) option" where
  "monitor_messages self http s =
     (case monitor_loop self http s None of
        None \<Rightarrow> None
      | Some KeyboardInterrupt \<Rightarrow> Some (Inr ())
      | Some (Exception msg) \<Rightarrow> Some (Inl (Exception msg)))"

section \<open>Bulk delete\<close>

text \<open>
  \<^verbatim>\<open>delete_messages_bulk\<close> (lines 270-281) starts one process per
  \<^verbatim>\<open>i in range(count)\<close>, each running \<^verbatim>\<open>_delete_single_message(chat_id,
  start_message_id - i)\<close>, and joins them all. \<^verbatim>\<open>_delete_single_message\<close> calls
  \<^verbatim>\<open>delete_message\<close> once and prints one line for its outcome. The processes run
  concurrently and share nothing; the model is the list of the processes started, in
  the order of their start, each given by its arguments. \<open>delete_single_message\<close>
  is \<^verbatim>\<open>_delete_single_message\<close>, its result the line it prints.
\<close>

definition py_range :: "int \<Rightarrow> int list" where
  "py_range n = [0..n - 1]"

definition delete_messages_bulk :: "string \<Rightarrow> int \<Rightarrow> int \<Rightarrow> (string \<times> int) list" where
  "delete_messages_bulk chat_id start_message_id count =
     map (\<lambda>i. (chat_id, start_message_id - i)) (py_range count)"

datatype delete_report = Deleted int | TooOld int | Failed int

definition delete_single_message ::
  "threaty_bot \<Rightarrow> (request \<Rightarrow> 'r outcome) \<Rightarrow> string \<Rightarrow> int \<Rightarrow> py_exception + delete_report" where
  "delete_single_message self http chat_id msg_id =
     (case delete_message self http chat_id msg_id of
        Inl e \<Rightarrow> Inl e
      | Inr res \<Rightarrow>
          if ok res then Inr (Deleted msg_id)
          else if description res = Some ''Bad Request: message can't be deleted for everyone''
          then Inr (TooOld msg_id)
          else Inr (Failed msg_id))"

text \<open>The requests the started processes send: one \<open>delete_request\<close> each.\<close>

definition bulk_delete_requests :: "threaty_bot \<Rightarrow> string \<Rightarrow> int \<Rightarrow> int \<Rightarrow> request list" where
  "bulk_delete_requests self chat_id start_message_id count =
     map (\<lambda>(c, m). delete_request self c m) (delete_messages_bulk chat_id start_message_id count)"

section \<open>File classifier\<close>

text \<open>
  \<^verbatim>\<open>ThreatyBot.file_categories\<close> (telethreaty.py, lines 27-38): a dict from category
  to the list of its extensions. Python dicts iterate in insertion order, so the table
  is an association list in the order of the source.
\<close>

definition file_categories :: "(string \<times> string list) list" where
  "file_categories =
    [(''archive'', [''.zip'', ''.7z'', ''.rar'', ''.tar'', ''.gz'', ''.gzip'', ''.bz2'', ''.xz'', ''.lzh'', ''.iso'']),
     (''document'', [''.pdf'', ''.doc'', ''.docx'', ''.txt'', ''.rtf'', ''.odt'', ''.pages'']),
     (''code'', [''.py'', ''.js'', ''.java'', ''.cpp'', ''.c'', ''.html'', ''.css'', ''.php'', ''.rb'', ''.go'', ''.rs'']),
     (''spreadsheet'', [''.xls'', ''.xlsx'', ''.csv'', ''.ods'', ''.numbers'']),
     (''presentation'', [''.ppt'', ''.pptx'', ''.key'', ''.odp'']),
     (''image'', [''.jpg'', ''.jpeg'', ''.png'', ''.gif'', ''.bmp'', ''.tiff'', ''.webp'', ''.svg'']),
     (''audio'', [''.mp3'', ''.wav'', ''.ogg'', ''.flac'', ''.m4a'', ''.aac'']),
     (''video'', [''.mp4'', ''.avi'', ''.mov'', ''.wmv'', ''.flv'', ''.webm'', ''.mkv'']),
     (''executable'', [''.exe'', ''.msi'', ''.dmg'', ''.pkg'', ''.deb'', ''.rpm'', ''.apk'']),
     (''config'', [''.json'', ''.xml'', ''.yaml'', ''.yml'', ''.ini'', ''.conf'', ''.cfg''])]"

text \<open>
  \<^verbatim>\<open>str.rfind(c)\<close> for a one-character needle: the index of the last occurrence,
  or \<open>-1\<close>. The scan runs left to right and remembers the latest hit.
\<close>

fun rfind_from :: "char \<Rightarrow> string \<Rightarrow> int \<Rightarrow> int \<Rightarrow> int" where
  "rfind_from c [] i found = found"
| "rfind_from c (x # xs) i found = rfind_from c xs (i + 1) (if x = c then i else found)"

definition rfind :: "string \<Rightarrow> char \<Rightarrow> int" where
  "rfind p c = rfind_from c p 0 (- 1)"

text \<open>
  \<^verbatim>\<open>os.path.splitext\<close> is the standard library's (posixpath, through
  \<^verbatim>\<open>genericpath._splitext\<close> with \<^verbatim>\<open>sep = '/'\<close>, no altsep and
  \<^verbatim>\<open>extsep = '.'\<close>):
  \<^verbatim>\<open>
    sepIndex = p.rfind(sep)
    dotIndex = p.rfind(extsep)
    if dotIndex > sepIndex:
        filenameIndex = sepIndex + 1
        while filenameIndex < dotIndex:
            if p[filenameIndex:filenameIndex+1] != extsep:
                return p[:dotIndex], p[dotIndex:]
            filenameIndex += 1
    return p, p[:0]
  \<close>
  The while loop is \<open>splitext_scan\<close>; the slices are \<open>take\<close> and \<open>drop\<close>
  (both indices are non-negative where they are used).
\<close>

function splitext_scan :: "string \<Rightarrow> int \<Rightarrow> int \<Rightarrow> string \<times> string" where
  "splitext_scan p filenameIndex dotIndex =
     (if filenameIndex < dotIndex then
        (if take 1 (drop (nat filenameIndex) p) \<noteq> ''.''
         then (take (nat dotIndex) p, drop (nat dotIndex) p)
         else splitext_scan p (filenameIndex + 1) dotIndex)
      else (p, []))"
  by pat_completeness auto
termination
  by (relation "measure (\<lambda>(p, filenameIndex, dotIndex). nat (dotIndex - filenameIndex))") auto

definition splitext :: "string \<Rightarrow> string \<times> string" where
  "splitext p =
     (let sepIndex = rfind p (CHR ''/'');
          dotIndex = rfind p (CHR ''.'')
      in if dotIndex > sepIndex then splitext_scan p (sepIndex + 1) dotIndex else (p, []))"

text \<open>
  \<^verbatim>\<open>str.lower()\<close>. A HOL character is a byte, so the model lowers the ASCII
  letters and leaves every other byte as it is.
\<close>

definition lower_char :: "char \<Rightarrow> char" where
  "lower_char c =
     (case map_of (zip ''ABCDEFGHIJKLMNOPQRSTUVWXYZ'' ''abcdefghijklmnopqrstuvwxyz'') c of
        None \<Rightarrow> c
      | Some l \<Rightarrow> l)"

definition lower :: "string \<Rightarrow> string" where
  "lower s = map lower_char s"

text \<open>
  \<^verbatim>\<open>get_file_category\<close> (lines 322-331). The for loop over
  \<^verbatim>\<open>file_categories.items()\<close> returns the first category whose list holds the
  extension; falling off the loop returns \<^verbatim>\<open>"other"\<close>.
\<close>

fun category_loop :: "string \<Rightarrow> (string \<times> string list) list \<Rightarrow> string" where
  "category_loop ext [] = ''other''"
| "category_loop ext ((category, extensions) # items) =
     (if ext \<in> set extensions then category else category_loop ext items)"

definition get_file_category :: "string \<Rightarrow> string" where
  "get_file_category filename =
     (if filename = [] then ''unknown''
      else let ext = lower (snd (splitext filename))
           in category_loop ext file_categories)"

section \<open>Properties of the message projector\<close>

lemma project_loop_acc:
  "project_loop chat_id can_read_all us acc = acc @ project_loop chat_id can_read_all us []"
proof (induction us arbitrary: acc)
  case Nil
  show ?case by simp
next
  case (Cons u us)
  show ?case
  proof (cases "embedded_message u")
    case None
    then show ?thesis using Cons [of acc] by simp
  next
    case (Some m)
    then show ?thesis
      using Cons [of acc] Cons [of "acc @ [projected_record u m]"]
        Cons [of "[projected_record u m]"]
      by auto
  qed
qed

lemma project_Nil [simp]: "project chat_id can_read_all [] = []"
  by (simp add: project_def)

lemma project_Cons:
  "project chat_id can_read_all (u # us) =
     (case embedded_message u of
        None \<Rightarrow> []
      | Some m \<Rightarrow>
          if chat_mismatch chat_id m \<or> (\<not> can_read_all \<and> \<not> is_visible m) then []
          else [projected_record u m])
     @ project chat_id can_read_all us"
  using project_loop_acc [of chat_id can_read_all us "[projected_record u (the (embedded_message u))]"]
  by (auto simp: project_def split: option.splits)

lemma project_append:
  "project chat_id can_read_all (us @ vs) =
     project chat_id can_read_all us @ project chat_id can_read_all vs"
  by (induction us) (simp_all add: project_Cons)

lemma embedded_as_update [simp]: "embedded_message (as_update r) = Some (rec_message r)"
  by (simp add: embedded_message_def as_update_def)

lemma record_as_update [simp]:
  "projected_record (as_update (projected_record u m)) m = projected_record u m"
  by (simp add: projected_record_def as_update_def)

lemma rec_message_record [simp]: "rec_message (projected_record u m) = m"
  by (simp add: projected_record_def)

lemma project_idem:
  "project chat_id can_read_all (map as_update (project chat_id can_read_all us)) =
     project chat_id can_read_all us"
proof (induction us)
  case Nil
  show ?case by simp
next
  case (Cons u us)
  show ?case
  proof (cases "embedded_message u")
    case None
    then show ?thesis using Cons by (simp add: project_Cons)
  next
    case (Some m)
    then show ?thesis using Cons by (simp add: project_Cons)
  qed
qed

lemma project_messages:
  "map rec_message (project None False us) =
     filter is_visible (List.map_filter embedded_message us)"
  by (induction us)
     (auto simp: project_Cons map_filter_simps chat_mismatch_def split: option.splits)

lemma str_int_1001: "str_int (- 1001) = ''-1001''"
  by (simp add: str_int_def)

lemma str_int_7: "str_int 7 = ''7''"
  by (simp add: str_int_def)

text \<open>
  C1, as amended. In privacy mode (\<^verbatim>\<open>can_read_all\<close> false) the projection keeps, in
  input order, exactly the updates whose embedded message passes the chat filter (no
  filter, or the same chat id) and is visible: its text starts with \<^verbatim>\<open>/\<close>, or it
  has a \<^verbatim>\<open>reply_to_message\<close>, or its chat type is \<^verbatim>\<open>private\<close>. So a message that
  passes the chat filter is kept when its text is \<^verbatim>\<open>/start\<close> and when its chat is
  private, and a message with text \<^verbatim>\<open>hello\<close>, no reply and a chat that is not
  private is dropped.
\<close>

theorem privacy_mode_keeps_visible_messages:
  "project chat_id False us =
     List.map_filter
       (\<lambda>u. case embedded_message u of
              None \<Rightarrow> None
            | Some m \<Rightarrow>
                if \<not> chat_mismatch chat_id m
                   \<and> (startswith (case msg_text m of None \<Rightarrow> [] | Some t \<Rightarrow> t) ''/''
                      \<or> reply_to_message m \<noteq> None
                      \<or> c_type (chat m) = ''private'')
                then Some (projected_record u m) else None) us
   \<and> (embedded_message u = Some m \<and> \<not> chat_mismatch chat_id m \<and> msg_text m = Some ''/start''
        \<longrightarrow> project chat_id False [u] = [projected_record u m])
   \<and> (embedded_message u = Some m \<and> msg_text m = Some ''hello''
        \<and> c_type (chat m) \<noteq> ''private'' \<and> reply_to_message m = None
        \<longrightarrow> project chat_id False [u] = [])
   \<and> (embedded_message u = Some m \<and> \<not> chat_mismatch chat_id m \<and> c_type (chat m) = ''private''
        \<longrightarrow> project chat_id False [u] = [projected_record u m])"
proof (intro conjI impI)
  show "project chat_id False us =
     List.map_filter
       (\<lambda>u. case embedded_message u of
              None \<Rightarrow> None
            | Some m \<Rightarrow>
                if \<not> chat_mismatch chat_id m
                   \<and> (startswith (case msg_text m of None \<Rightarrow> [] | Some t \<Rightarrow> t) ''/''
                      \<or> reply_to_message m \<noteq> None
                      \<or> c_type (chat m) = ''private'')
                then Some (projected_record u m) else None) us"
    by (induction us)
       (auto simp: project_Cons map_filter_simps is_visible_def split: option.splits)
next
  assume "embedded_message u = Some m \<and> \<not> chat_mismatch chat_id m \<and> msg_text m = Some ''/start''"
  then show "project chat_id False [u] = [projected_record u m]"
    by (simp add: project_Cons is_visible_def startswith_def)
next
  assume "embedded_message u = Some m \<and> msg_text m = Some ''hello''
        \<and> c_type (chat m) \<noteq> ''private'' \<and> reply_to_message m = None"
  then show "project chat_id False [u] = []"
    by (simp add: project_Cons is_visible_def startswith_def)
next
  assume "embedded_message u = Some m \<and> \<not> chat_mismatch chat_id m \<and> c_type (chat m) = ''private''"
  then show "project chat_id False [u] = [projected_record u m]"
    by (simp add: project_Cons is_visible_def)
qed

theorem privacy_mode_witness:
  "project (Some ''-1001'') False
     [message_update 1 (text_message (- 1001) ''group'' ''/start''),
      message_update 2 (text_message (- 1001) ''group'' ''hello''),
      channel_post_update 3 (text_message (- 1001) ''private'' ''hi'')]
   = [projected_record (message_update 1 (text_message (- 1001) ''group'' ''/start''))
        (text_message (- 1001) ''group'' ''/start''),
      projected_record (channel_post_update 3 (text_message (- 1001) ''private'' ''hi''))
        (text_message (- 1001) ''private'' ''hi'')]"
proof -
  let ?m1 = "text_message (- 1001) ''group'' ''/start''"
  let ?m2 = "text_message (- 1001) ''group'' ''hello''"
  let ?m3 = "text_message (- 1001) ''private'' ''hi''"
  have mm: "\<not> chat_mismatch (Some ''-1001'') ?m1" "\<not> chat_mismatch (Some ''-1001'') ?m3"
    by (simp_all add: chat_mismatch_def text_message_def str_int_1001)
  have 1: "project (Some ''-1001'') False [message_update 1 ?m1] =
      [projected_record (message_update 1 ?m1) ?m1]"
    using privacy_mode_keeps_visible_messages [of "Some ''-1001''" "[]" "message_update 1 ?m1" ?m1] mm
    by (simp add: embedded_message_def message_update_def) (simp add: text_message_def)
  have 2: "project (Some ''-1001'') False [message_update 2 ?m2] = []"
    using privacy_mode_keeps_visible_messages [of "Some ''-1001''" "[]" "message_update 2 ?m2" ?m2]
    by (simp add: embedded_message_def message_update_def) (simp add: text_message_def)
  have 3: "project (Some ''-1001'') False [channel_post_update 3 ?m3] =
      [projected_record (channel_post_update 3 ?m3) ?m3]"
    using privacy_mode_keeps_visible_messages [of "Some ''-1001''" "[]" "channel_post_update 3 ?m3" ?m3] mm
    by (simp add: embedded_message_def channel_post_update_def) (simp add: text_message_def)
  have "project (Some ''-1001'') False
     ([message_update 1 ?m1] @ [message_update 2 ?m2] @ [channel_post_update 3 ?m3]) =
     [projected_record (message_update 1 ?m1) ?m1] @ [] @
     [projected_record (channel_post_update 3 ?m3) ?m3]"
    unfolding project_append 1 2 3 ..
  then show ?thesis by simp
qed

text \<open>
  C1 as stated does not hold for every run in privacy mode: with the chat filter
  \<^verbatim>\<open>"42"\<close>, the command \<^verbatim>\<open>/start\<close> sent in chat 7 is dropped.
\<close>

theorem chat_filter_drops_command_counterexample:
  "embedded_message (message_update 1 (text_message 7 ''group'' ''/start''))
     = Some (text_message 7 ''group'' ''/start'')
   \<and> startswith ''/start'' ''/''
   \<and> msg_text (text_message 7 ''group'' ''/start'') = Some ''/start''
   \<and> project (Some ''42'') False [message_update 1 (text_message 7 ''group'' ''/start'')] = []"
  by (simp add: project_Cons embedded_message_def message_update_def text_message_def
      chat_mismatch_def str_int_7 startswith_def)

text \<open>
  C2. With no chat filter and \<^verbatim>\<open>can_read_all\<close> true the projection yields one record
  for each update that holds a message or a channel post, in input order, and nothing
  for an update that holds neither: the number of records is the number of such
  updates, and their update ids are the ids of those updates in order.
\<close>

theorem project_all_one_record_per_message:
  "project None True us =
     List.map_filter (\<lambda>u. map_option (projected_record u) (embedded_message u)) us
   \<and> length (project None True us) =
       length (filter (\<lambda>u. message u \<noteq> None \<or> channel_post u \<noteq> None) us)
   \<and> map rec_update_id (project None True us) =
       map update_id (filter (\<lambda>u. message u \<noteq> None \<or> channel_post u \<noteq> None) us)
   \<and> (message u = None \<and> channel_post u = None \<longrightarrow> project None True [u] = [])"
proof (intro conjI impI)
  show "project None True us =
     List.map_filter (\<lambda>u. map_option (projected_record u) (embedded_message u)) us"
    by (induction us)
       (auto simp: project_Cons map_filter_simps chat_mismatch_def split: option.splits)
  show "length (project None True us) =
       length (filter (\<lambda>u. message u \<noteq> None \<or> channel_post u \<noteq> None) us)"
    by (induction us)
       (auto simp: project_Cons chat_mismatch_def embedded_message_def split: option.splits)
  show "map rec_update_id (project None True us) =
       map update_id (filter (\<lambda>u. message u \<noteq> None \<or> channel_post u \<noteq> None) us)"
    by (induction us)
       (auto simp: project_Cons chat_mismatch_def embedded_message_def projected_record_def
          split: option.splits)
next
  assume "message u = None \<and> channel_post u = None"
  then show "project None True [u] = []"
    by (simp add: project_Cons embedded_message_def)
qed

theorem project_all_witness:
  "project None True
     [message_update 1 (text_message 7 ''group'' ''hello''), plain_update 2,
      channel_post_update 3 (text_message 8 ''channel'' ''news'')]
   = [projected_record (message_update 1 (text_message 7 ''group'' ''hello''))
        (text_message 7 ''group'' ''hello''),
      projected_record (channel_post_update 3 (text_message 8 ''channel'' ''news''))
        (text_message 8 ''channel'' ''news'')]
   \<and> project None True [plain_update 2] = []"
proof -
  have "project None True [plain_update 2] = []"
    using project_all_one_record_per_message [of "[]" "plain_update 2"]
    by (simp add: plain_update_def)
  moreover have "project None True
     [message_update 1 (text_message 7 ''group'' ''hello''), plain_update 2,
      channel_post_update 3 (text_message 8 ''channel'' ''news'')]
   = [projected_record (message_update 1 (text_message 7 ''group'' ''hello''))
        (text_message 7 ''group'' ''hello''),
      projected_record (channel_post_update 3 (text_message 8 ''channel'' ''news''))
        (text_message 8 ''channel'' ''news'')]"
    using project_all_one_record_per_message
      [of "[message_update 1 (text_message 7 ''group'' ''hello''), plain_update 2,
      channel_post_update 3 (text_message 8 ''channel'' ''news'')]" "plain_update 2"]
    by (simp add: map_filter_simps embedded_message_def message_update_def plain_update_def
        channel_post_update_def)
  ultimately show ?thesis by simp
qed

text \<open>
  C9. Running the privacy-mode projection on its own output (each record read back as
  an update) gives that output again. Without a chat filter the messages it keeps are
  the embedded messages filtered by \<open>is_visible\<close>, and filtering a list of messages
  by \<open>is_visible\<close> twice is filtering it once.
\<close>

theorem visibility_filter_idempotent:
  "project chat_id False (map as_update (project chat_id False us)) = project chat_id False us
   \<and> map rec_message (project None False us) =
       filter is_visible (List.map_filter embedded_message us)
   \<and> filter is_visible (filter is_visible ms) = filter is_visible ms"
  by (simp add: project_idem project_messages)

theorem visibility_filter_idempotent_witness:
  "project None False (map as_update (project None False
      [message_update 1 (text_message 7 ''group'' ''/start''),
       message_update 2 (text_message 7 ''group'' ''hello'')]))
   = [projected_record (message_update 1 (text_message 7 ''group'' ''/start''))
        (text_message 7 ''group'' ''/start'')]"
proof -
  have "project None False
      [message_update 1 (text_message 7 ''group'' ''/start''),
       message_update 2 (text_message 7 ''group'' ''hello'')]
     = [projected_record (message_update 1 (text_message 7 ''group'' ''/start''))
        (text_message 7 ''group'' ''/start'')]"
    by (simp add: project_Cons embedded_message_def message_update_def text_message_def
        chat_mismatch_def is_visible_def startswith_def)
  with visibility_filter_idempotent [of None
      "[message_update 1 (text_message 7 ''group'' ''/start''),
       message_update 2 (text_message 7 ''group'' ''hello'')]" "[]"]
  show ?thesis by simp
qed

section \<open>Properties of the update poller\<close>

lemma not_stops_page:
  "\<not> stops lim n reply \<Longrightarrow>
   \<exists>data us. reply = Inr data \<and> ok data \<and> result data = Some us \<and> us \<noteq> []
     \<and> \<not> lim \<le> int (n + length us) \<and> \<not> length us < 100 \<and> page (rq, reply) = us"
  by (auto simp: stops_def page_def split: sum.splits option.splits if_splits)

lemma loop_stop:
  assumes "stops lim (length acc) (fst (http s rq))"
    and "rq = get_updates_request self offset (min 100 (lim - int (length acc)))"
  shows "get_updates_loop self http lim s offset acc tr =
           (exit_of (rq, fst (http s rq)), acc @ page (rq, fst (http s rq)),
            tr @ [(rq, fst (http s rq))], snd (http s rq))"
  using assms
  by (subst get_updates_loop.simps)
     (auto simp: stops_def page_def exit_of_def Let_def split: sum.splits option.splits if_splits)

lemma loop_continue:
  assumes "\<not> stops lim (length acc) (fst (http s rq))"
    and "rq = get_updates_request self offset (min 100 (lim - int (length acc)))"
  shows "get_updates_loop self http lim s offset acc tr =
           get_updates_loop self http lim (snd (http s rq))
             (update_id (last (page (rq, fst (http s rq)))) + 1)
             (acc @ page (rq, fst (http s rq))) (tr @ [(rq, fst (http s rq))])"
  using assms
  by (subst get_updates_loop.simps)
     (auto simp: stops_def page_def Let_def split: sum.splits option.splits if_splits)

lemma poll_run_nonempty: "poll_run self http lim s offset n xs \<Longrightarrow> xs \<noteq> []"
  by (induction rule: poll_run.induct) auto

lemma loop_run:
  "\<exists>xs s'. get_updates_loop self http lim s offset acc tr =
              (exit_of (last xs), acc @ concat (map page xs), tr @ xs, s')
          \<and> poll_run self http lim s offset (length acc) xs"
proof (induction "nat (lim - int (length acc))" arbitrary: s offset acc tr rule: less_induct)
  case less
  define rq where "rq = get_updates_request self offset (min 100 (lim - int (length acc)))"
  define x where "x = (rq, fst (http s rq))"
  show ?case
  proof (cases "stops lim (length acc) (fst (http s rq))")
    case True
    have "poll_run self http lim s offset (length acc) [x]"
      unfolding x_def using rq_def True by (rule poll_run.last_request)
    moreover have "get_updates_loop self http lim s offset acc tr =
        (exit_of (last [x]), acc @ concat (map page [x]), tr @ [x], snd (http s rq))"
      using loop_stop [where http = http and s = s and rq = rq, OF True rq_def]
      by (simp add: x_def)
    ultimately show ?thesis by blast
  next
    case False
    from not_stops_page [OF False, of rq]
    have pg: "page x \<noteq> []" "\<not> lim \<le> int (length acc + length (page x))"
      by (auto simp: x_def)
    then have "nat (lim - int (length (acc @ page x))) < nat (lim - int (length acc))"
      by auto
    from less [OF this, of "snd (http s rq)" "update_id (last (page x)) + 1" "tr @ [x]"]
    obtain xs s' where run: "get_updates_loop self http lim (snd (http s rq))
          (update_id (last (page x)) + 1) (acc @ page x) (tr @ [x]) =
          (exit_of (last xs), (acc @ page x) @ concat (map page xs), (tr @ [x]) @ xs, s')"
      and pr: "poll_run self http lim (snd (http s rq)) (update_id (last (page x)) + 1)
          (length (acc @ page x)) xs"
      by blast
    have ne: "xs \<noteq> []" using pr by (rule poll_run_nonempty)
    have "poll_run self http lim s offset (length acc) (x # xs)"
      using rq_def False x_def pr by (intro poll_run.next_request) simp_all
    moreover have "get_updates_loop self http lim s offset acc tr =
        (exit_of (last (x # xs)), acc @ concat (map page (x # xs)), tr @ (x # xs), s')"
      using loop_continue [where http = http and s = s and rq = rq and tr = tr, OF False rq_def]
        run ne by (simp add: x_def)
    ultimately show ?thesis by blast
  qed
qed

lemma poll_run_stops:
  "poll_run self http lim s offset n xs \<Longrightarrow> i < length xs \<Longrightarrow>
   stops lim (n + length (concat (map page (take i xs)))) (snd (xs ! i)) \<longleftrightarrow> Suc i = length xs"
proof (induction arbitrary: i rule: poll_run.induct)
  case (last_request rq offset n s)
  then show ?case by simp
next
  case (next_request rq offset n s x xs)
  show ?case
  proof (cases i)
    case 0
    with next_request poll_run_nonempty [OF next_request.hyps(4)] show ?thesis by auto
  next
    case (Suc j)
    with next_request.prems have "j < length xs" by simp
    from next_request.IH [OF this] Suc show ?thesis by (simp add: add.assoc)
  qed
qed

lemma poll_run_first_request:
  "poll_run self http lim s offset n xs \<Longrightarrow>
   fst (xs ! 0) = get_updates_request self offset (min 100 (lim - int n))"
  by (induction rule: poll_run.induct) auto

lemma poll_run_requests:
  "poll_run self http lim s offset n xs \<Longrightarrow> i < length xs \<Longrightarrow>
   sent_limit (xs ! i) =
     Some (IntV (min 100 (lim - int (n + length (concat (map page (take i xs)))))))"
proof (induction arbitrary: i rule: poll_run.induct)
  case (last_request rq offset n s)
  then show ?case by (simp add: sent_limit_def get_updates_request_def)
next
  case (next_request rq offset n s x xs)
  show ?case
  proof (cases i)
    case 0
    with next_request show ?thesis by (simp add: sent_limit_def get_updates_request_def)
  next
    case (Suc j)
    with next_request.prems have "j < length xs" by simp
    from next_request.IH [OF this] Suc show ?thesis by (simp add: add.assoc)
  qed
qed

lemma poll_run_next_offset:
  "poll_run self http lim s offset n xs \<Longrightarrow> Suc i < length xs \<Longrightarrow>
   page (xs ! i) \<noteq> [] \<and>
   sent_offset (xs ! Suc i) = Some (IntV (update_id (last (page (xs ! i))) + 1))"
proof (induction arbitrary: i rule: poll_run.induct)
  case (last_request rq offset n s)
  then show ?case by simp
next
  case (next_request rq offset n s x xs)
  show ?case
  proof (cases i)
    case 0
    from not_stops_page [OF next_request.hyps(2), of rq] next_request.hyps(3)
    have "page x \<noteq> []" by auto
    moreover have "sent_offset (xs ! 0) = Some (IntV (update_id (last (page x)) + 1))"
      using poll_run_first_request [OF next_request.hyps(4)]
      by (simp add: sent_offset_def get_updates_request_def)
    ultimately show ?thesis using 0 by simp
  next
    case (Suc j)
    with next_request.prems have "Suc j < length xs" by simp
    from next_request.IH [OF this] Suc show ?thesis by simp
  qed
qed

lemma poll_run_bound:
  "poll_run self http lim s offset n xs \<Longrightarrow> int n < lim \<Longrightarrow>
   (\<And>x. x \<in> set xs \<Longrightarrow> \<exists>k. sent_limit x = Some (IntV k) \<and> int (length (page x)) \<le> k) \<Longrightarrow>
   int (n + length (concat (map page xs))) \<le> lim"
proof (induction rule: poll_run.induct)
  case (last_request rq offset n s)
  from last_request.prems(2) [of "(rq, fst (http s rq))"] last_request.hyps(1)
  show ?case by (auto simp: sent_limit_def get_updates_request_def)
next
  case (next_request rq offset n s x xs)
  from not_stops_page [OF next_request.hyps(2), of rq] next_request.hyps(3)
  have "int (n + length (page x)) < lim" by auto
  from next_request.IH [OF this] next_request.prems(2)
  show ?case by (simp add: add.assoc)
qed

lemma get_all_updates_run:
  assumes "get_all_updates self http s lim offset = (res, xs, s')"
  shows "poll_run self http lim s offset 0 xs"
    and "snd (last xs) \<noteq> Inl KeyboardInterrupt \<Longrightarrow> res = Inr (concat (map page xs))"
    and "snd (last xs) = Inl KeyboardInterrupt \<Longrightarrow> res = Inl KeyboardInterrupt"
proof -
  from loop_run [of self http lim s offset "[]" "[]"]
  obtain ys t where run: "get_updates_loop self http lim s offset [] [] =
      (exit_of (last ys), concat (map page ys), ys, t)"
    and pr: "poll_run self http lim s offset 0 ys"
    by auto
  have xs: "xs = ys"
    using assms run
    by (auto simp: get_all_updates_def split: loop_exit.splits py_exception.splits)
  show "poll_run self http lim s offset 0 xs" using pr xs by simp
  show "res = Inr (concat (map page xs))" if "snd (last xs) \<noteq> Inl KeyboardInterrupt"
    using assms run that xs
    by (auto simp: get_all_updates_def exit_of_def key_error_result_def
        split: loop_exit.splits py_exception.splits sum.splits if_splits)
  show "res = Inl KeyboardInterrupt" if "snd (last xs) = Inl KeyboardInterrupt"
    using assms run that xs
    by (auto simp: get_all_updates_def exit_of_def
        split: loop_exit.splits py_exception.splits sum.splits if_splits)
qed

lemma scripted_fst [simp]: "fst (scripted (out # script) rq) = out"
  and scripted_snd [simp]: "snd (scripted (out # script) rq) = script"
  by (simp_all add: scripted_def)

lemma page_ok_page [simp]: "page (rq, ok_page us) = us"
  by (simp add: page_def ok_page_def)

lemma scripted_continue:
  assumes "100 \<le> length p" and "int (length acc + length p) < lim"
  shows "get_updates_loop self scripted lim (ok_page p # script) offset acc tr =
         get_updates_loop self scripted lim script (update_id (last p) + 1) (acc @ p)
           (tr @ [(get_updates_request self offset (min 100 (lim - int (length acc))), ok_page p)])"
proof -
  define rq where "rq = get_updates_request self offset (min 100 (lim - int (length acc)))"
  have "\<not> stops lim (length acc) (fst (scripted (ok_page p # script) rq))"
    using assms by (auto simp: stops_def ok_page_def)
  from loop_continue [where http = scripted and s = "ok_page p # script" and rq = rq
      and tr = tr, OF this rq_def]
  show ?thesis by (simp add: rq_def)
qed

lemma scripted_stop:
  assumes "stops lim (length acc) out"
  shows "get_updates_loop self scripted lim (out # script) offset acc tr =
         (exit_of (get_updates_request self offset (min 100 (lim - int (length acc))), out),
          acc @ page (get_updates_request self offset (min 100 (lim - int (length acc))), out),
          tr @ [(get_updates_request self offset (min 100 (lim - int (length acc))), out)],
          script)"
proof -
  define rq where "rq = get_updates_request self offset (min 100 (lim - int (length acc)))"
  have "stops lim (length acc) (fst (scripted (out # script) rq))"
    using assms by simp
  from loop_stop [where http = scripted and s = "out # script" and rq = rq and tr = tr,
      OF this rq_def]
  show ?thesis by (simp add: rq_def)
qed

lemma pages_100_100_37:
  assumes "length p1 = 100" and "length p2 = 100" and "length p3 = 37"
  shows "get_all_updates self scripted (ok_page p1 # ok_page p2 # ok_page p3 # script) 1000 offset =
           (Inr (p1 @ p2 @ p3),
            [(get_updates_request self offset 100, ok_page p1),
             (get_updates_request self (update_id (last p1) + 1) 100, ok_page p2),
             (get_updates_request self (update_id (last p2) + 1) 100, ok_page p3)],
            script)"
proof -
  let ?x1 = "(get_updates_request self offset 100, ok_page p1)"
  let ?x2 = "(get_updates_request self (update_id (last p1) + 1) 100, ok_page p2)"
  let ?x3 = "(get_updates_request self (update_id (last p2) + 1) 100, ok_page p3)"
  have "get_updates_loop self scripted 1000 (ok_page p1 # ok_page p2 # ok_page p3 # script)
          offset [] [] =
        get_updates_loop self scripted 1000 (ok_page p2 # ok_page p3 # script)
          (update_id (last p1) + 1) p1 [?x1]"
    using scripted_continue [of p1 "[]" 1000 self "ok_page p2 # ok_page p3 # script" offset "[]"]
      assms by simp
  also have "\<dots> = get_updates_loop self scripted 1000 (ok_page p3 # script)
          (update_id (last p2) + 1) (p1 @ p2) [?x1, ?x2]"
    using scripted_continue [of p2 p1 1000 self "ok_page p3 # script" "update_id (last p1) + 1"
        "[?x1]"] assms by simp
  also have "\<dots> = (Break, p1 @ p2 @ p3, [?x1, ?x2, ?x3], script)"
  proof -
    have "stops 1000 (length (p1 @ p2)) (ok_page p3)"
      using assms by (simp add: stops_def ok_page_def)
    from scripted_stop [OF this, of self script "update_id (last p2) + 1" "[?x1, ?x2]"] assms
    show ?thesis by (simp add: exit_of_def) (simp add: ok_page_def)
  qed
  finally show ?thesis by (simp add: get_all_updates_def)
qed

lemma length_updates_from [simp]: "length (updates_from a n) = n"
  by (simp add: updates_from_def)

lemma last_updates_from [simp]:
  "0 < n \<Longrightarrow> update_id (last (updates_from a n)) = a + int n - 1"
  by (cases n) (simp_all add: updates_from_def plain_update_def)

lemma page_then_last:
  assumes "length p1 = 100" and "100 < lim" and "stops lim 100 out"
  shows "get_updates_loop self scripted lim (ok_page p1 # out # script) offset [] [] =
           (exit_of (get_updates_request self (update_id (last p1) + 1) (min 100 (lim - 100)), out),
            p1 @ page (get_updates_request self (update_id (last p1) + 1) (min 100 (lim - 100)), out),
            [(get_updates_request self offset 100, ok_page p1),
             (get_updates_request self (update_id (last p1) + 1) (min 100 (lim - 100)), out)],
            script)"
proof -
  let ?x1 = "(get_updates_request self offset 100, ok_page p1)"
  have "get_updates_loop self scripted lim (ok_page p1 # out # script) offset [] [] =
        get_updates_loop self scripted lim (out # script) (update_id (last p1) + 1) p1 [?x1]"
    using scripted_continue [of p1 "[]" lim self "out # script" offset "[]"] assms by simp
  also have "\<dots> =
           (exit_of (get_updates_request self (update_id (last p1) + 1) (min 100 (lim - 100)), out),
            p1 @ page (get_updates_request self (update_id (last p1) + 1) (min 100 (lim - 100)), out),
            [?x1, (get_updates_request self (update_id (last p1) + 1) (min 100 (lim - 100)), out)],
            script)"
  proof -
    have "stops lim (length p1) out" using assms by simp
    from scripted_stop [OF this, of self script "update_id (last p1) + 1" "[?x1]"] assms
    show ?thesis by simp
  qed
  finally show ?thesis .
qed

lemma sorted_ids_le_last:
  "sorted_wrt (<) (map update_id p) \<Longrightarrow> u \<in> set p \<Longrightarrow> update_id u \<le> update_id (last p)"
  by (induction p) (auto simp: less_imp_le)

text \<open>
  C3. In every run of \<^verbatim>\<open>get_all_updates\<close> at least one request is made, and the
  request after which the loop ends is the first whose outcome meets a stop condition
  (\<open>stops\<close>: the accumulated count reaches the limit, the page is shorter than 100,
  the envelope is not ok or its result is empty or absent, or the request raised);
  after every earlier request none of them held. For a source that serves pages of
  100, 100 and 37 updates, polling with limit 1000 returns the 237 updates of the three
  pages in order after exactly three requests, and leaves the rest of the source unread.
\<close>

theorem get_all_updates_termination:
  "(get_all_updates self http s lim offset = (res, xs, s') \<longrightarrow>
      xs \<noteq> [] \<and>
      (\<forall>i<length xs.
         stops lim (length (concat (map page (take i xs)))) (snd (xs ! i)) = (Suc i = length xs)))
   \<and> (length p1 = 100 \<and> length p2 = 100 \<and> length p3 = 37 \<longrightarrow>
        (\<exists>xs'. get_all_updates self scripted (ok_page p1 # ok_page p2 # ok_page p3 # script)
                 1000 offset = (Inr (p1 @ p2 @ p3), xs', script)
               \<and> length xs' = 3 \<and> length (p1 @ p2 @ p3) = 237))"
proof (intro conjI impI)
  assume run: "get_all_updates self http s lim offset = (res, xs, s')"
  from get_all_updates_run(1) [OF run] show "xs \<noteq> []" by (rule poll_run_nonempty)
  show "\<forall>i<length xs.
         stops lim (length (concat (map page (take i xs)))) (snd (xs ! i)) = (Suc i = length xs)"
    using poll_run_stops [OF get_all_updates_run(1) [OF run]] by simp
next
  assume "length p1 = 100 \<and> length p2 = 100 \<and> length p3 = 37"
  then show "\<exists>xs'. get_all_updates self scripted (ok_page p1 # ok_page p2 # ok_page p3 # script)
                 1000 offset = (Inr (p1 @ p2 @ p3), xs', script)
               \<and> length xs' = 3 \<and> length (p1 @ p2 @ p3) = 237"
    using pages_100_100_37 [of p1 p2 p3 self script offset] by simp
qed

theorem get_all_updates_termination_witness:
  "fst (get_all_updates \<lparr>token = ''t'', timeout = 30, download_dir = ''downloads''\<rparr> scripted
          [ok_page (updates_from 0 100), ok_page (updates_from 100 100),
           ok_page (updates_from 200 37)] 1000 0)
     = Inr (updates_from 0 100 @ updates_from 100 100 @ updates_from 200 37)
   \<and> length (fst (snd (get_all_updates \<lparr>token = ''t'', timeout = 30, download_dir = ''downloads''\<rparr>
          scripted [ok_page (updates_from 0 100), ok_page (updates_from 100 100),
           ok_page (updates_from 200 37)] 1000 0))) = 3
   \<and> length (updates_from 0 100 @ updates_from 100 100 @ updates_from 200 37) = 237
   \<and> stops 1000 200 (ok_page (updates_from 200 37))
   \<and> \<not> stops 1000 100 (ok_page (updates_from 100 100))"
proof -
  let ?bot = "\<lparr>token = ''t'', timeout = 30, download_dir = ''downloads''\<rparr>"
  let ?script = "[ok_page (updates_from 0 100), ok_page (updates_from 100 100),
           ok_page (updates_from 200 37)]"
  note inst = get_all_updates_termination [where self = ?bot and http = scripted
      and s = ?script and lim = 1000 and offset = 0 and ?p1.0 = "updates_from 0 100"
      and ?p2.0 = "updates_from 100 100" and ?p3.0 = "updates_from 200 37" and script = "[]"]
  from inst [THEN conjunct2] have "\<exists>xs'. get_all_updates ?bot scripted ?script 1000 0 =
       (Inr (updates_from 0 100 @ updates_from 100 100 @ updates_from 200 37), xs', [])
       \<and> length xs' = 3"
    by simp
  then obtain xs' where
    run: "get_all_updates ?bot scripted ?script 1000 0 =
       (Inr (updates_from 0 100 @ updates_from 100 100 @ updates_from 200 37), xs', [])"
    and len: "length xs' = 3"
    by blast
  have pages: "map page xs' = [updates_from 0 100, updates_from 100 100, updates_from 200 37]"
    using run pages_100_100_37 [of "updates_from 0 100" "updates_from 100 100"
        "updates_from 200 37" ?bot "[]" 0]
    by auto
  have outs: "map snd xs' = ?script"
    using run pages_100_100_37 [of "updates_from 0 100" "updates_from 100 100"
        "updates_from 200 37" ?bot "[]" 0]
    by auto
  from inst [THEN conjunct1, rule_format, OF run] have st: "\<forall>i<length xs'.
      stops 1000 (length (concat (map page (take i xs')))) (snd (xs' ! i)) = (Suc i = length xs')"
    by blast
  have "stops 1000 (length (concat (take 2 (map page xs')))) (map snd xs' ! 2)"
    using st [rule_format, of 2] len by (simp add: take_map)
  then have s2: "stops 1000 200 (ok_page (updates_from 200 37))"
    unfolding pages outs by simp
  have "\<not> stops 1000 (length (concat (take 1 (map page xs')))) (map snd xs' ! 1)"
    using st [rule_format, of 1] len by (simp add: take_map)
  then have s1: "\<not> stops 1000 100 (ok_page (updates_from 100 100))"
    unfolding pages outs by simp
  show ?thesis using run len s1 s2 by simp
qed

lemma poll_run_sent_offset:
  "poll_run self http lim s offset n xs \<Longrightarrow> i < length xs \<Longrightarrow>
   \<exists>k. sent_offset (xs ! i) = Some (IntV k)"
proof (induction arbitrary: i rule: poll_run.induct)
  case (last_request rq offset n s)
  then show ?case by (simp add: sent_offset_def get_updates_request_def)
next
  case (next_request rq offset n s x xs)
  show ?case
  proof (cases i)
    case 0
    with next_request show ?thesis by (simp add: sent_offset_def get_updates_request_def)
  next
    case (Suc j)
    with next_request.prems have "j < length xs" by simp
    from next_request.IH [OF this] Suc show ?thesis by simp
  qed
qed

lemma honours_offsetD:
  "honours_offset x \<Longrightarrow> sent_offset x = Some (IntV k) \<Longrightarrow> u \<in> set (page x) \<Longrightarrow>
   k \<le> update_id u"
  by (simp add: honours_offset_def list_all_iff)

lemma poll_run_offsets_increase:
  assumes pr: "poll_run self http lim s offset n xs"
    and good: "\<And>x. x \<in> set xs \<Longrightarrow> ascending x \<and> honours_offset x"
    and ij: "i < j" "j < length xs"
    and u: "u \<in> set (page (xs ! i))"
    and oj: "sent_offset (xs ! j) = Some (IntV k)"
  shows "update_id u < k"
  using ij oj
proof (induction j arbitrary: k)
  case 0
  then show ?case by simp
next
  case (Suc j)
  from Suc.prems have j: "Suc j < length xs" by simp
  from poll_run_next_offset [OF pr j]
  have ne: "page (xs ! j) \<noteq> []"
    and next_off: "sent_offset (xs ! Suc j) = Some (IntV (update_id (last (page (xs ! j))) + 1))"
    by simp_all
  from next_off Suc.prems have k: "k = update_id (last (page (xs ! j))) + 1" by simp
  have mem: "xs ! j \<in> set xs" using j by simp
  show ?case
  proof (cases "i = j")
    case True
    have "ascending (xs ! j)" using good [OF mem] by simp
    then have "update_id u \<le> update_id (last (page (xs ! j)))"
      using u True by (simp add: ascending_def sorted_ids_le_last)
    then show ?thesis using k by simp
  next
    case False
    with Suc.prems have lt: "i < j" by simp
    from poll_run_sent_offset [OF pr, of j] j
    obtain k' where k': "sent_offset (xs ! j) = Some (IntV k')" by auto
    from Suc.IH [OF lt _ k'] j have "update_id u < k'" by simp
    moreover have "k' \<le> update_id (last (page (xs ! j)))"
      using honours_offsetD [OF _ k', of "last (page (xs ! j))"] good [OF mem] ne by simp
    ultimately show ?thesis using k by simp
  qed
qed

lemma ascending_updates_from: "sorted_wrt (<) (map update_id (updates_from a n))"
  by (simp add: updates_from_def plain_update_def comp_def sorted_wrt_map sorted_wrt_upt)

lemma updates_from_lower: "list_all (\<lambda>u. a \<le> update_id u) (updates_from a n)"
  by (simp add: updates_from_def plain_update_def list_all_iff)

text \<open>
  C4. The first request carries the starting offset. Whenever the loop makes another
  request, the page before it was a non-empty page, and the offset of that request is
  the \<open>update_id\<close> of the last update of that page plus one. When the pages of the
  run are as the API serves them (ascending ids, none below the offset asked for), the
  offset of every request lies above the id of every update of every page fetched
  before it: no update already fetched is asked for again.
\<close>

theorem next_offset_is_last_update_id_plus_one:
  assumes "get_all_updates self http s lim offset = (res, xs, s')"
  shows "sent_offset (xs ! 0) = Some (IntV offset)
     \<and> (\<forall>i. Suc i < length xs \<longrightarrow>
           page (xs ! i) \<noteq> []
         \<and> sent_offset (xs ! Suc i) = Some (IntV (update_id (last (page (xs ! i))) + 1)))
     \<and> ((\<forall>x\<in>set xs. ascending x \<and> honours_offset x) \<longrightarrow>
          (\<forall>i j u. i < j \<and> j < length xs \<and> u \<in> set (page (xs ! i)) \<longrightarrow>
             (\<exists>k. sent_offset (xs ! j) = Some (IntV k) \<and> update_id u < k)))"
proof -
  note pr = get_all_updates_run(1) [OF assms]
  have "sent_offset (xs ! 0) = Some (IntV offset)"
    using poll_run_first_request [OF pr] by (simp add: sent_offset_def get_updates_request_def)
  moreover have "\<forall>i. Suc i < length xs \<longrightarrow>
           page (xs ! i) \<noteq> []
         \<and> sent_offset (xs ! Suc i) = Some (IntV (update_id (last (page (xs ! i))) + 1))"
    using poll_run_next_offset [OF pr] by blast
  moreover have "\<exists>k. sent_offset (xs ! j) = Some (IntV k) \<and> update_id u < k"
    if good: "\<forall>x\<in>set xs. ascending x \<and> honours_offset x"
      and ij: "i < j" "j < length xs" and u: "u \<in> set (page (xs ! i))" for i j u
  proof -
    from poll_run_sent_offset [OF pr ij(2)]
    obtain k where k: "sent_offset (xs ! j) = Some (IntV k)" by blast
    from good have "\<And>x. x \<in> set xs \<Longrightarrow> ascending x \<and> honours_offset x" by blast
    from poll_run_offsets_increase [OF pr this ij u k] k show ?thesis by blast
  qed
  ultimately show ?thesis by blast
qed

theorem next_offset_witness:
  "sent_offset (fst (snd (get_all_updates \<lparr>token = ''t'', timeout = 30, download_dir = ''d''\<rparr>
      scripted [ok_page (updates_from 7 100), ok_page (updates_from 107 3)] 1000 7)) ! 0)
     = Some (IntV 7)
   \<and> sent_offset (fst (snd (get_all_updates \<lparr>token = ''t'', timeout = 30, download_dir = ''d''\<rparr>
      scripted [ok_page (updates_from 7 100), ok_page (updates_from 107 3)] 1000 7)) ! 1)
     = Some (IntV 107)
   \<and> list_all (\<lambda>u. update_id u < 107) (updates_from 7 100)"
proof -
  let ?bot = "\<lparr>token = ''t'', timeout = 30, download_dir = ''d''\<rparr>"
  let ?rq2 = "get_updates_request ?bot (update_id (last (updates_from 7 100)) + 1) (min 100 (1000 - 100))"
  let ?xs = "[(get_updates_request ?bot 7 100, ok_page (updates_from 7 100)),
             (?rq2, ok_page (updates_from 107 3))]"
  have st: "stops 1000 100 (ok_page (updates_from 107 3))"
    by (simp add: stops_def ok_page_def)
  have run: "get_all_updates ?bot scripted [ok_page (updates_from 7 100), ok_page (updates_from 107 3)]
      1000 7 = (Inr (updates_from 7 100 @ updates_from 107 3), ?xs, [])"
    using page_then_last [of "updates_from 7 100" 1000 "ok_page (updates_from 107 3)" ?bot "[]" 7] st
    by (simp add: get_all_updates_def exit_of_def) (simp add: ok_page_def)
  have off: "sent_offset (?xs ! 0) = Some (IntV 7)" "sent_offset (?xs ! 1) = Some (IntV 107)"
    by (simp_all add: sent_offset_def get_updates_request_def)
  have good: "\<forall>x\<in>set ?xs. ascending x \<and> honours_offset x"
    using updates_from_lower [of 7 100] updates_from_lower [of 107 3]
    by (simp add: ascending_def honours_offset_def ascending_updates_from
        sent_offset_def get_updates_request_def)
  note inst = next_offset_is_last_update_id_plus_one [OF run]
  from inst have "sent_offset (?xs ! 0) = Some (IntV 7)" by blast
  moreover from inst
  have "sent_offset (?xs ! Suc 0) = Some (IntV (update_id (last (page (?xs ! 0))) + 1))"
    by simp
  then have "sent_offset (?xs ! 1) = Some (IntV 107)" by simp
  moreover have "list_all (\<lambda>u. update_id u < 107) (updates_from 7 100)"
  proof -
    from inst good have "\<forall>i j u. i < j \<and> j < length ?xs \<and> u \<in> set (page (?xs ! i)) \<longrightarrow>
             (\<exists>k. sent_offset (?xs ! j) = Some (IntV k) \<and> update_id u < k)"
      by blast
    then have "\<forall>u. u \<in> set (page (?xs ! 0)) \<longrightarrow>
             (\<exists>k. sent_offset (?xs ! 1) = Some (IntV k) \<and> update_id u < k)"
      by (metis One_nat_def length_Cons lessI list.size(3) zero_less_one)
    then show ?thesis unfolding off(2) by (simp add: list_all_iff)
  qed
  ultimately show ?thesis unfolding run by simp
qed

lemma exception_ends_run:
  assumes "get_all_updates self http s lim offset = (res, xs, s')"
    and "i < length xs"
    and "snd (xs ! i) = Inl (Exception msg)"
  shows "Suc i = length xs" and "res = Inr (concat (map page (take i xs)))"
proof -
  note pr = get_all_updates_run(1) [OF assms(1)]
  have "stops lim (0 + length (concat (map page (take i xs)))) (snd (xs ! i))"
    using assms(3) by (simp add: stops_def)
  with poll_run_stops [OF pr assms(2)] show last: "Suc i = length xs" by simp
  then have xs: "xs = take i xs @ [xs ! i]"
    by (metis assms(2) lessI take_Suc_conv_app_nth take_all order_refl)
  have "last xs = xs ! i"
    using last assms(2) by (metis xs last_snoc)
  then have "snd (last xs) \<noteq> Inl KeyboardInterrupt"
    using assms(3) by simp
  from get_all_updates_run(2) [OF assms(1) this]
  have "res = Inr (concat (map page xs))" .
  also have "concat (map page xs) = concat (map page (take i xs)) @ page (xs ! i)"
    by (subst xs) simp
  also have "page (xs ! i) = []"
    using assms(3) by (simp add: page_def)
  finally show "res = Inr (concat (map page (take i xs)))" by simp
qed

lemma first_request_fails:
  "get_all_updates self scripted (Inl (Exception msg) # script) lim offset =
     (Inr [], [(get_updates_request self offset (min 100 lim), Inl (Exception msg))], script)"
proof -
  have "stops lim (length ([]::update list)) (Inl (Exception msg))"
    by (simp add: stops_def)
  from scripted_stop [OF this, of self script offset "[]"]
  show ?thesis by (simp add: get_all_updates_def exit_of_def page_def)
qed

text \<open>
  C8. When a request of the loop fails with an exception of class \<^verbatim>\<open>Exception\<close>
  (a transport error), that request is the last one of the run, and
  \<^verbatim>\<open>get_all_updates\<close> returns normally (\<open>Inr\<close>) exactly the updates of the pages
  fetched before it, in order.
\<close>

theorem transport_error_returns_accumulated:
  assumes "get_all_updates self http s lim offset = (res, xs, s')"
    and "i < length xs"
    and "snd (xs ! i) = Inl (Exception msg)"
  shows "Suc i = length xs \<and> res = Inr (concat (map page (take i xs)))"
  using exception_ends_run [OF assms] by simp

theorem transport_error_witness:
  "fst (get_all_updates \<lparr>token = ''t'', timeout = 30, download_dir = ''d''\<rparr>
      scripted [ok_page (updates_from 0 100), Inl (Exception ''connection reset'')] 1000 0)
     = Inr (updates_from 0 100)
   \<and> length (fst (snd (get_all_updates \<lparr>token = ''t'', timeout = 30, download_dir = ''d''\<rparr>
      scripted [ok_page (updates_from 0 100), Inl (Exception ''connection reset'')] 1000 0))) = 2"
proof -
  let ?bot = "\<lparr>token = ''t'', timeout = 30, download_dir = ''d''\<rparr>"
  let ?script = "[ok_page (updates_from 0 100), Inl (Exception ''connection reset'')]"
  obtain res xs s' where run: "get_all_updates ?bot scripted ?script 1000 0 = (res, xs, s')"
    by (cases "get_all_updates ?bot scripted ?script 1000 0")
  have st: "stops 1000 100 (Inl (Exception ''connection reset''))"
    by (simp add: stops_def)
  have xs: "xs = [(get_updates_request ?bot 0 100, ok_page (updates_from 0 100)),
             (get_updates_request ?bot (update_id (last (updates_from 0 100)) + 1)
                (min 100 (1000 - 100)), Inl (Exception ''connection reset''))]"
    using page_then_last [of "updates_from 0 100" 1000 "Inl (Exception ''connection reset'')"
        ?bot "[]" 0] st run
    by (simp add: get_all_updates_def exit_of_def)
  have "Suc 1 = length xs \<and> res = Inr (concat (map page (take 1 xs)))"
    by (rule transport_error_returns_accumulated [OF run]) (simp_all add: xs)
  then show ?thesis unfolding run by (simp add: xs)
qed

lemma respects_limitD:
  "respects_limit x \<Longrightarrow> \<exists>k. sent_limit x = Some (IntV k) \<and> int (length (page x)) \<le> k"
proof (cases "sent_limit x")
  case None
  then show "respects_limit x \<Longrightarrow> ?thesis" by (simp add: respects_limit_def)
next
  case (Some v)
  then show "respects_limit x \<Longrightarrow> ?thesis"
    by (cases v) (simp_all add: respects_limit_def)
qed

text \<open>
  C10. Every request of a run asks for \<^verbatim>\<open>min(100, limit - accumulated)\<close> updates.
  For a positive limit, when every page of the run is no longer than the limit its
  request asked for, the list returned has at most \<open>limit\<close> elements.
\<close>

theorem result_length_at_most_limit:
  assumes "get_all_updates self http s lim offset = (res, xs, s')"
    and "0 < lim"
    and "\<forall>x\<in>set xs. respects_limit x"
  shows "(\<forall>i<length xs. sent_limit (xs ! i) =
            Some (IntV (min 100 (lim - int (length (concat (map page (take i xs))))))))
     \<and> (\<forall>us. res = Inr us \<longrightarrow> int (length us) \<le> lim)"
proof -
  note pr = get_all_updates_run(1) [OF assms(1)]
  have "\<forall>i<length xs. sent_limit (xs ! i) =
            Some (IntV (min 100 (lim - int (length (concat (map page (take i xs)))))))"
    using poll_run_requests [OF pr] by simp
  moreover have "int (length us) \<le> lim" if "res = Inr us" for us
  proof -
    have "snd (last xs) \<noteq> Inl KeyboardInterrupt"
      using get_all_updates_run(3) [OF assms(1)] that by auto
    from get_all_updates_run(2) [OF assms(1) this] that
    have us: "us = concat (map page xs)" by simp
    have "\<exists>k. sent_limit x = Some (IntV k) \<and> int (length (page x)) \<le> k" if "x \<in> set xs" for x
      using assms(3) that by (blast intro: respects_limitD)
    from poll_run_bound [OF pr _ this] assms(2) show ?thesis
      by (simp add: us)
  qed
  ultimately show ?thesis by blast
qed

theorem result_length_witness:
  "fst (get_all_updates \<lparr>token = ''t'', timeout = 30, download_dir = ''d''\<rparr>
      scripted [ok_page (updates_from 0 100), ok_page (updates_from 100 50)] 150 0)
     = Inr (updates_from 0 100 @ updates_from 100 50)
   \<and> int (length (updates_from 0 100 @ updates_from 100 50)) \<le> 150
   \<and> map sent_limit (fst (snd (get_all_updates \<lparr>token = ''t'', timeout = 30, download_dir = ''d''\<rparr>
      scripted [ok_page (updates_from 0 100), ok_page (updates_from 100 50)] 150 0)))
     = [Some (IntV 100), Some (IntV 50)]"
proof -
  let ?bot = "\<lparr>token = ''t'', timeout = 30, download_dir = ''d''\<rparr>"
  let ?script = "[ok_page (updates_from 0 100), ok_page (updates_from 100 50)]"
  let ?xs = "[(get_updates_request ?bot 0 100, ok_page (updates_from 0 100)),
             (get_updates_request ?bot (update_id (last (updates_from 0 100)) + 1)
                (min 100 (150 - 100)), ok_page (updates_from 100 50))]"
  have st: "stops 150 100 (ok_page (updates_from 100 50))"
    by (simp add: stops_def ok_page_def)
  have run: "get_all_updates ?bot scripted ?script 150 0 =
      (Inr (updates_from 0 100 @ updates_from 100 50), ?xs, [])"
    using page_then_last [of "updates_from 0 100" 150 "ok_page (updates_from 100 50)" ?bot "[]" 0] st
    by (simp add: get_all_updates_def exit_of_def) (simp add: ok_page_def)
  have resp: "\<forall>x\<in>set ?xs. respects_limit x"
    by (simp add: respects_limit_def sent_limit_def get_updates_request_def)
  from result_length_at_most_limit [OF run _ resp]
  have "(\<forall>i<length ?xs. sent_limit (?xs ! i) =
            Some (IntV (min 100 (150 - int (length (concat (map page (take i ?xs))))))))"
    and "int (length (updates_from 0 100 @ updates_from 100 50)) \<le> 150"
    by simp_all
  then show ?thesis unfolding run
    by (simp add: sent_limit_def get_updates_request_def)
qed

section \<open>Properties of the bulk delete\<close>

lemma set_py_range: "set (py_range n) = {i. 0 \<le> i \<and> i < n}"
  by (auto simp: py_range_def)

lemma distinct_py_range: "distinct (py_range n)"
  by (simp add: py_range_def)

lemma length_py_range: "length (py_range n) = nat n"
  by (simp add: py_range_def)

lemma py_range_5: "py_range 5 = [0, 1, 2, 3, 4]"
  by (simp add: py_range_def upto_rec1)

lemma py_range_3: "py_range 3 = [0, 1, 2]"
  by (simp add: py_range_def upto_rec1)

lemma bulk_ids:
  "map snd (delete_messages_bulk chat_id start_message_id n) =
     map (\<lambda>i. start_message_id - i) (py_range n)"
  by (simp add: delete_messages_bulk_def comp_def)

text \<open>
  C6. \<^verbatim>\<open>delete_messages_bulk\<close> starts one process for each \<open>i\<close> in
  \<^verbatim>\<open>range(count)\<close>: the message ids of the processes are pairwise distinct and are
  exactly the ids \<open>start_message_id - i\<close> with \<open>0 \<le> i < count\<close>, every process has
  the given chat id, and each sends the one delete request of its id. For the start id
  500 and the count 5 the ids are 500, 499, 498, 497 and 496. Set and distinctness are
  independent of the order the processes run in.
\<close>

theorem bulk_delete_targets:
  "distinct (map snd (delete_messages_bulk chat_id start_message_id n))
   \<and> set (map snd (delete_messages_bulk chat_id start_message_id n)) =
       {start_message_id - i | i. 0 \<le> i \<and> i < n}
   \<and> length (delete_messages_bulk chat_id start_message_id n) = nat n
   \<and> map fst (delete_messages_bulk chat_id start_message_id n) = replicate (nat n) chat_id
   \<and> bulk_delete_requests self chat_id start_message_id n =
       map (\<lambda>i. delete_request self chat_id (start_message_id - i)) (py_range n)
   \<and> distinct (bulk_delete_requests self chat_id start_message_id n)
   \<and> set (map snd (delete_messages_bulk chat_id 500 5)) = {500, 499, 498, 497, 496}"
proof (intro conjI)
  have inj: "inj_on (\<lambda>i. start_message_id - i) A" for A
    by (simp add: inj_on_def)
  show d: "distinct (map snd (delete_messages_bulk chat_id start_message_id n))"
    unfolding bulk_ids by (simp add: distinct_map distinct_py_range inj)
  show "set (map snd (delete_messages_bulk chat_id start_message_id n)) =
       {start_message_id - i | i. 0 \<le> i \<and> i < n}"
    unfolding bulk_ids by (auto simp: set_py_range)
  show "length (delete_messages_bulk chat_id start_message_id n) = nat n"
    by (simp add: delete_messages_bulk_def length_py_range)
  show "map fst (delete_messages_bulk chat_id start_message_id n) = replicate (nat n) chat_id"
    by (simp add: delete_messages_bulk_def comp_def map_replicate_const length_py_range)
  show r: "bulk_delete_requests self chat_id start_message_id n =
       map (\<lambda>i. delete_request self chat_id (start_message_id - i)) (py_range n)"
    by (simp add: bulk_delete_requests_def delete_messages_bulk_def comp_def)
  have "inj_on (\<lambda>i. delete_request self chat_id (start_message_id - i)) A" for A
    by (simp add: inj_on_def delete_request_def)
  then show "distinct (bulk_delete_requests self chat_id start_message_id n)"
    unfolding r by (simp add: distinct_map distinct_py_range)
  show "set (map snd (delete_messages_bulk chat_id 500 5)) = {500, 499, 498, 497, 496}"
    unfolding bulk_ids py_range_5 by auto
qed

theorem bulk_delete_witness:
  "map snd (delete_messages_bulk ''-1001'' 10 3) = [10, 9, 8]
   \<and> distinct [10, 9, 8 :: int]
   \<and> set (map snd (delete_messages_bulk ''-1001'' 10 3)) = {10 - i | i. 0 \<le> i \<and> i < (3::int)}"
proof -
  have "map snd (delete_messages_bulk ''-1001'' 10 3) = [10, 9, 8]"
    unfolding bulk_ids py_range_3 by simp
  with bulk_delete_targets [of "''-1001''" 10 3] show ?thesis by simp
qed

section \<open>Transport errors\<close>

lemma try_json_Exception [simp]: "try_json (Inl (Exception msg)) = Inr (failure msg)"
  by (simp add: try_json_def)

lemma monitor_propagates_exception:
  "fst (http s (monitor_request self None)) = Inl (Exception msg) \<Longrightarrow>
   monitor_messages self http s = Some (Inl (Exception msg))"
  by (simp add: monitor_messages_def monitor_loop.simps [of self http s None])

text \<open>
  C7, as amended. When the request fails with an \<^verbatim>\<open>Exception\<close>, each of the nine
  single-request wrappers returns the dict \<^verbatim>\<open>{'ok': False, 'error': str(e)}\<close>;
  \<^verbatim>\<open>get_file_download_url\<close> returns \<^verbatim>\<open>None\<close>, and \<^verbatim>\<open>get_all_updates\<close>, when
  a request of its loop fails, returns the list of the updates accumulated before it.
  None of them raises.
\<close>

theorem wrappers_catch_transport_errors:
  assumes "\<forall>rq. http rq = Inl (Exception msg)"
    and "\<forall>rq. http_file rq = Inl (Exception msg)"
    and "get_all_updates self src s lim offset = (res, xs, s')"
    and "i < length xs"
    and "snd (xs ! i) = Inl (Exception msg)"
  shows "get_bot_info self http = Inr (failure msg)
     \<and> get_chat_info self http chat_id = Inr (failure msg)
     \<and> get_chat_member self http chat_id user = Inr (failure msg)
     \<and> get_chat_administrators self http chat_id = Inr (failure msg)
     \<and> get_chat_member_count self http chat_id = Inr (failure msg)
     \<and> get_my_commands self http chat_id = Inr (failure msg)
     \<and> get_my_default_admin_rights self http chat_id = Inr (failure msg)
     \<and> send_message self http chat_id body = Inr (failure msg)
     \<and> delete_message self http chat_id msg_id = Inr (failure msg)
     \<and> \<not> ok (failure msg :: 'r envelope) \<and> error (failure msg :: 'r envelope) = Some msg
     \<and> get_file_download_url self http_file file_id = Inr None
     \<and> res = Inr (concat (map page (take i xs)))"
proof -
  have "res = Inr (concat (map page (take i xs)))"
    by (rule exception_ends_run(2) [OF assms(3-5)])
  moreover have "get_file_download_url self http_file file_id = Inr None"
    using assms(2) by (simp add: get_file_download_url_def)
  ultimately show ?thesis
    using assms(1)
    by (simp add: get_bot_info_def get_chat_info_def get_chat_member_def
        get_chat_administrators_def get_chat_member_count_def get_my_commands_def
        get_my_default_admin_rights_def send_message_def delete_message_def failure_def)
qed

theorem wrappers_catch_witness:
  "send_message \<lparr>token = ''t'', timeout = 30, download_dir = ''d''\<rparr>
      (\<lambda>rq. Inl (Exception ''timed out'')) ''-1001'' ''hi''
     = (Inr \<lparr>ok = False, result = None, description = None, error = Some ''timed out''\<rparr>
         :: unit outcome)
   \<and> get_file_download_url \<lparr>token = ''t'', timeout = 30, download_dir = ''d''\<rparr>
      (\<lambda>rq. Inl (Exception ''timed out'')) ''file'' = Inr None
   \<and> fst (get_all_updates \<lparr>token = ''t'', timeout = 30, download_dir = ''d''\<rparr> scripted
        [Inl (Exception ''timed out'')] 100 0) = Inr []"
proof -
  let ?bot = "\<lparr>token = ''t'', timeout = 30, download_dir = ''d''\<rparr>"
  let ?xs = "[(get_updates_request ?bot 0 (min 100 100), Inl (Exception ''timed out''))]"
  have run: "get_all_updates ?bot scripted [Inl (Exception ''timed out'')] 100 0 =
      (Inr [], ?xs, [])"
    by (rule first_request_fails)
  have "send_message ?bot (\<lambda>rq. Inl (Exception ''timed out'')) ''-1001'' ''hi''
      = (Inr (failure ''timed out'') :: unit outcome)
    \<and> get_file_download_url ?bot (\<lambda>rq. Inl (Exception ''timed out'')) ''file'' = Inr None
    \<and> Inr [] = (Inr (concat (map page (take 0 ?xs))) :: py_exception + update list)"
    using wrappers_catch_transport_errors [where http = "\<lambda>rq. Inl (Exception ''timed out'') :: unit outcome"
      and http_file = "\<lambda>rq. Inl (Exception ''timed out'')" and msg = "''timed out''"
      and self = ?bot and chat_id = "''-1001''" and body = "''hi''" and file_id = "''file''"
      and user = 0 and msg_id = 0 and i = 0, OF _ _ run]
    by (simp add: failure_def)
  then show ?thesis unfolding run by (simp add: failure_def)
qed

text \<open>
  C7 as stated does not hold: on a timed-out request \<^verbatim>\<open>get_file_download_url\<close>
  returns \<^verbatim>\<open>None\<close> and \<^verbatim>\<open>get_all_updates\<close> returns a list, not the dict with
  \<^verbatim>\<open>ok\<close> and \<^verbatim>\<open>error\<close>; and \<^verbatim>\<open>monitor_messages\<close>, whose only handler is for
  \<^verbatim>\<open>KeyboardInterrupt\<close>, lets the exception through to its caller.
\<close>

theorem transport_error_shape_counterexample:
  "get_file_download_url \<lparr>token = ''t'', timeout = 30, download_dir = ''d''\<rparr>
      (\<lambda>rq. Inl (Exception ''timed out'')) ''file'' = Inr None
   \<and> get_all_updates \<lparr>token = ''t'', timeout = 30, download_dir = ''d''\<rparr> scripted
        [Inl (Exception ''timed out'')] 100 0
      = (Inr [],
         [(get_updates_request \<lparr>token = ''t'', timeout = 30, download_dir = ''d''\<rparr> 0 100,
           Inl (Exception ''timed out''))], [])
   \<and> monitor_messages \<lparr>token = ''t'', timeout = 30, download_dir = ''d''\<rparr> scripted
        [Inl (Exception ''timed out'')] = Some (Inl (Exception ''timed out''))"
proof -
  let ?bot = "\<lparr>token = ''t'', timeout = 30, download_dir = ''d''\<rparr>"
  have "get_file_download_url ?bot (\<lambda>rq. Inl (Exception ''timed out'')) ''file'' = Inr None"
    by (simp add: get_file_download_url_def)
  moreover have "get_all_updates ?bot scripted [Inl (Exception ''timed out'')] 100 0
      = (Inr [], [(get_updates_request ?bot 0 100, Inl (Exception ''timed out''))], [])"
    using first_request_fails [of ?bot "''timed out''" "[]" 100 0] by simp
  moreover have "monitor_messages ?bot scripted [Inl (Exception ''timed out'')]
      = Some (Inl (Exception ''timed out''))"
    by (rule monitor_propagates_exception) simp
  ultimately show ?thesis by blast
qed

lemma monitor_stops_on_keyboard_interrupt:
  "fst (http s (monitor_request self None)) = Inl KeyboardInterrupt \<Longrightarrow>
   monitor_messages self http s = Some (Inr ())"
  by (simp add: monitor_messages_def monitor_loop.simps [of self http s None])

section \<open>Properties of the file classifier\<close>

lemma category_loop_range:
  "category_loop ext items \<in> insert ''other'' (set (map fst items))"
proof (induction items)
  case Nil
  show ?case by simp
next
  case (Cons item items)
  obtain category extensions where item: "item = (category, extensions)"
    by (cases item)
  from Cons show ?case
    unfolding item by (cases "ext \<in> set extensions") auto
qed

lemma splitext_report: "splitext ''report.PDF'' = (''report'', ''.PDF'')"
  by (simp add: splitext_def rfind_def)

lemma splitext_archive: "splitext ''archive.tar.gz'' = (''archive.tar'', ''.gz'')"
  by (simp add: splitext_def rfind_def)

lemma splitext_noext: "splitext ''noext'' = (''noext'', [])"
  by (simp add: splitext_def rfind_def)

lemma get_file_category_range:
  "get_file_category filename \<in>
     insert ''unknown'' (insert ''other'' (set (map fst file_categories)))"
  using category_loop_range [of "lower (snd (splitext filename))" file_categories]
  by (simp add: get_file_category_def Let_def del: set_map)

text \<open>
  C5. The classifier is a total function from filenames to category names: it has no
  failing branch, and every result is \<^verbatim>\<open>"unknown"\<close>, \<^verbatim>\<open>"other"\<close> or a key of
  the table. \<^verbatim>\<open>"report.PDF"\<close> is a document (the extension is lowered first),
  \<^verbatim>\<open>"archive.tar.gz"\<close> is an archive, decided by its final extension
  \<^verbatim>\<open>".gz"\<close> alone, \<^verbatim>\<open>"noext"\<close> is other and the empty name is unknown.
\<close>

theorem get_file_category_total_examples:
  "get_file_category ''report.PDF'' = ''document''
   \<and> get_file_category ''archive.tar.gz'' = ''archive''
   \<and> snd (splitext ''archive.tar.gz'') = ''.gz''
   \<and> get_file_category ''noext'' = ''other''
   \<and> get_file_category [] = ''unknown''
   \<and> (\<forall>filename. get_file_category filename \<in>
         insert ''unknown'' (insert ''other'' (set (map fst file_categories))))"
proof -
  have "get_file_category ''report.PDF'' = ''document''"
    by (simp add: get_file_category_def splitext_report lower_def lower_char_def
        file_categories_def)
  moreover have "get_file_category ''archive.tar.gz'' = ''archive''"
    by (simp add: get_file_category_def splitext_archive lower_def lower_char_def
        file_categories_def)
  moreover have "get_file_category ''noext'' = ''other''"
    by (simp add: get_file_category_def splitext_noext lower_def file_categories_def)
  moreover have "get_file_category [] = ''unknown''"
    by (simp add: get_file_category_def)
  ultimately show ?thesis
    using get_file_category_range by (simp add: splitext_archive)
qed

theorem get_file_category_witness:
  "get_file_category ''photo.JPeG'' = ''image''
   \<and> get_file_category ''photo.JPeG'' \<in>
         insert ''unknown'' (insert ''other'' (set (map fst file_categories)))"
proof -
  have "get_file_category ''photo.JPeG'' = ''image''"
    by (simp add: get_file_category_def splitext_def rfind_def lower_def lower_char_def
        file_categories_def)
  moreover have "get_file_category ''photo.JPeG'' \<in>
         insert ''unknown'' (insert ''other'' (set (map fst file_categories)))"
    using get_file_category_total_examples by blast
  ultimately show ?thesis by blast
qed

end
